theory Spec2Isabelle
  imports
    Main
    "HOL-Library.Sublist"
    "HOL-Library.Multiset"
    "HOL-Library.Char_ord"
    "HOL-Library.List_Lexorder"
    "HOL-Library.Product_Lexorder"
begin

section \<open>Python values and string operations\<close>

text \<open>
  Strings are \<open>string\<close> (lists of 8-bit characters) and are compared the way Python
  compares \<open>str\<close>: lexicographically, character by character. \<open>str.lower\<close> is modelled
  on ASCII letters; every other character is left as it is.
\<close>

definition ascii_upper :: string where
  "ascii_upper = ''ABCDEFGHIJKLMNOPQRSTUVWXYZ''"

definition ascii_lower :: string where
  "ascii_lower = ''abcdefghijklmnopqrstuvwxyz''"

definition lower_char :: "char \<Rightarrow> char" where
  "lower_char c = (case map_of (zip ascii_upper ascii_lower) c of None \<Rightarrow> c | Some l \<Rightarrow> l)"

definition lower :: "string \<Rightarrow> string" where
  "lower s = map lower_char s"

text \<open>\<open>s.startswith((p1, ..., pn))\<close>: some element of the tuple is a prefix of \<open>s\<close>.\<close>

definition startswith :: "string \<Rightarrow> string list \<Rightarrow> bool" where
  "startswith s ps = list_ex (\<lambda>p. prefix p s) ps"

text \<open>\<open>sep.join(xs)\<close>.\<close>

fun join :: "string \<Rightarrow> string list \<Rightarrow> string" where
  "join sep [] = []"
| "join sep [x] = x"
| "join sep (x # y # ys) = x @ sep @ join sep (y # ys)"

text \<open>
  \<open>s.replace(old, new)\<close>: the string is scanned from the left; where \<open>old\<close> starts, \<open>new\<close>
  is emitted and the scan goes on behind the occurrence, so the occurrences replaced do not
  overlap. With an empty \<open>old\<close>, Python puts \<open>new\<close> before every character and at the end.
\<close>

function replace :: "string \<Rightarrow> string \<Rightarrow> string \<Rightarrow> string" where
  "replace [] old new = (if old = [] then new else [])"
| "replace (c # cs) old new =
     (if old = [] then new @ c # replace cs old new
      else if prefix old (c # cs) then new @ replace (drop (length old) (c # cs)) old new
      else c # replace cs old new)"
  by pat_completeness auto
termination
  by (relation "measure (\<lambda>(s, old, new). length s)") auto

text \<open>
  A value of a JSON-like dictionary that is either \<open>None\<close> or a string; \<open>str(v)\<close> renders
  \<open>None\<close> as the text \<open>None\<close>. \<open>d.get(k)\<close> on a missing key is \<open>None\<close> as well.
\<close>

datatype pyval = PNone | PStr string

fun py_str :: "pyval \<Rightarrow> string" where
  "py_str PNone = ''None''"
| "py_str (PStr s) = s"

definition py_get :: "(string \<rightharpoonup> pyval) \<Rightarrow> string \<Rightarrow> pyval" where
  "py_get d k = (case d k of None \<Rightarrow> PNone | Some v \<Rightarrow> v)"

text \<open>A detection is a \<open>Dict[str, str]\<close>; \<open>d.get(k, default)\<close> and the truth value of \<open>d.get(k)\<close>.\<close>

type_synonym detection = "string \<rightharpoonup> string"

definition get_or :: "detection \<Rightarrow> string \<Rightarrow> string \<Rightarrow> string" where
  "get_or d k dflt = (case d k of None \<Rightarrow> dflt | Some v \<Rightarrow> v)"

definition truthy :: "string option \<Rightarrow> bool" where
  "truthy v = (case v of None \<Rightarrow> False | Some s \<Rightarrow> s \<noteq> [])"

section \<open>Timestamps\<close>

text \<open>
  A UTC \<open>datetime\<close>. Timestamps are ordered as Python and the document store order them:
  by year, then month, and so on down to the microsecond.
\<close>

record datetime =
  year :: nat
  month :: nat
  day :: nat
  hour :: nat
  minute :: nat
  second :: nat
  microsecond :: nat

definition dt_key :: "datetime \<Rightarrow> nat \<times> nat \<times> nat \<times> nat \<times> nat \<times> nat \<times> nat" where
  "dt_key t = (year t, month t, day t, hour t, minute t, second t, microsecond t)"

section \<open>The event normalizer: \<open>app/utils.py\<close> and \<open>app/normalize.py\<close>\<close>

text \<open>
  \<open>redact\<close> walks over \<open>set(matches)\<close>. Python does not fix the order in which a set of
  strings is iterated, so the order is a parameter: \<open>iter xs\<close> lists the elements of
  \<open>set(xs)\<close>, each once (\<open>set_order\<close>).
\<close>

definition set_order :: "(string list \<Rightarrow> string list) \<Rightarrow> bool" where
  "set_order iter = (\<forall>xs. distinct (iter xs) \<and> set (iter xs) = set xs)"

definition redact :: "(string list \<Rightarrow> string list) \<Rightarrow> string \<Rightarrow> string list \<Rightarrow> string" where
  "redact iter text matches =
     foldl (\<lambda>out m. if m \<noteq> [] then replace out m ''****'' else out) text (iter matches)"

record status =
  state :: string
  jira_key :: "string option"
  glpi_id :: "int option"
  snow_sys_id :: "string option"
  last_sync_at :: "datetime option"

record event =
  fingerprint :: string
  platform :: string
  container :: "string \<rightharpoonup> pyval"
  found_at :: datetime
  severity :: string
  detections :: "detection list"
  snippet_redacted :: string
  status :: status
  source_meta :: "string \<rightharpoonup> pyval"

text \<open>
  \<open>make_event\<close>. The digest function \<open>sha256\<close> of \<open>app/utils.py\<close> (SHA-256 of the UTF-8
  bytes, as lower-case hex) and the clock \<open>datetime.utcnow()\<close> are parameters, like the
  iteration order of the set in \<open>redact\<close>.
\<close>

definition event_matches :: "detection list \<Rightarrow> string list" where
  "event_matches dets =
     sorted_list_of_set (set (map (\<lambda>d. get_or d ''match'' [])
                                  (filter (\<lambda>d. truthy (d ''match'')) dets)))"

definition fp_basis :: "string \<Rightarrow> (string \<rightharpoonup> pyval) \<Rightarrow> string \<Rightarrow> string list \<Rightarrow> string" where
  "fp_basis platform' container' pointer matches =
     platform' @ ''|'' @ py_str (py_get container' ''id'') @ ''|'' @ pointer @ ''|''
       @ join '','' matches"

definition make_event ::
  "(string \<Rightarrow> string) \<Rightarrow> (string list \<Rightarrow> string list) \<Rightarrow> datetime \<Rightarrow>
   string \<Rightarrow> (string \<rightharpoonup> pyval) \<Rightarrow> string \<Rightarrow> detection list \<Rightarrow> (string \<rightharpoonup> pyval) \<Rightarrow> event" where
  "make_event sha256 iter utcnow platform' container' text dets source_meta' =
     (let matches = event_matches dets;
          pointer = (case source_meta' ''pointer'' of None \<Rightarrow> [] | Some v \<Rightarrow> py_str v);
          fingerprint' = sha256 (fp_basis platform' container' pointer matches);
          snippet = take 4000 text;
          snippet_redacted' = redact iter snippet matches;
          severity' = (if list_ex (\<lambda>d. startswith (lower (get_or d ''label'' []))
                                         [''password'', ''private'', ''api'', ''credit'']) dets
                       then ''High'' else ''Medium'');
          ts = utcnow
      in \<lparr> fingerprint = fingerprint',
           platform = platform',
           container = container',
           found_at = ts,
           severity = severity',
           detections = dets,
           snippet_redacted = snippet_redacted',
           status = \<lparr> state = ''new'', jira_key = None, glpi_id = None,
                      snow_sys_id = None, last_sync_at = None \<rparr>,
           source_meta = source_meta' \<rparr>)"


text \<open>
  A measure used to bound the redacted snippet: a mask character counts 1, any other
  character counts 4, so replacing a match that has a character other than \<open>*\<close> by the
  four-character mask never raises the measure.
\<close>

definition mask_weight :: "string \<Rightarrow> nat" where
  "mask_weight s = sum_list (map (\<lambda>c. if c = CHR ''*'' then 1 else 4) s)"

section \<open>Webhook subscription filters: \<open>app/integrations/webhooks.py\<close>\<close>

text \<open>
  The filter dictionary of a subscription follows the schema
  \<open>{platform?, severity?, labels?[]}\<close>. Each key is absent (\<open>None\<close>), present with the
  value \<open>None\<close> (\<open>Some None\<close>), or present with a string, for \<open>labels\<close> a list of strings
  (\<open>Some (Some v)\<close>). \<open>not filters\<close> holds of the dictionary without keys. A key outside
  the schema is never read by \<open>match_filters\<close>; a dictionary that holds only such keys
  passes the three tests below and gives \<open>True\<close> as the empty one does.
\<close>

record filters =
  f_platform :: "string option option"
  f_severity :: "string option option"
  f_labels :: "string list option option"

definition no_filters :: filters where
  "no_filters = \<lparr> f_platform = None, f_severity = None, f_labels = None \<rparr>"

text \<open>\<open>v or ""\<close> and \<open>v or []\<close>.\<close>

definition or_empty :: "'a list option \<Rightarrow> 'a list" where
  "or_empty v = (case v of None \<Rightarrow> [] | Some x \<Rightarrow> x)"

definition event_labels :: "event \<Rightarrow> string list" where
  "event_labels ev =
     map (\<lambda>d. get_or d ''label'' []) (filter (\<lambda>d. truthy (d ''label'')) (detections ev))"

definition match_filters :: "event \<Rightarrow> filters \<Rightarrow> bool" where
  "match_filters ev flt =
     (if flt = no_filters then True
      else
        let plat = lower (platform ev);
            sev = lower (severity ev);
            labels = event_labels ev
        in if (case f_platform flt of None \<Rightarrow> False | Some v \<Rightarrow> lower (or_empty v) \<noteq> plat)
           then False
           else if (case f_severity flt of None \<Rightarrow> False | Some v \<Rightarrow> lower (or_empty v) \<noteq> sev)
           then False
           else if (case f_labels flt of None \<Rightarrow> False
                    | Some v \<Rightarrow> set (or_empty v) \<inter> set labels = {})
           then False
           else True)"

section \<open>The event store and the fan-out of a connector: \<open>app/connectors/slack_connector.py\<close>\<close>

text \<open>
  The collection \<open>events\<close> is the list of its documents. The call
  \<open>events.update_one({"fingerprint": fp}, {"$setOnInsert": ev}, upsert=True)\<close> leaves the
  collection alone when a document with that fingerprint exists, and inserts \<open>ev\<close>
  otherwise; \<open>res.upserted_id\<close> is set exactly in the second case. The first argument
  reads the fingerprint of a document; the result is the new collection and whether
  \<open>upserted_id\<close> is set.
\<close>

definition update_one_upsert :: "('d \<Rightarrow> 'k) \<Rightarrow> 'd \<Rightarrow> 'd list \<Rightarrow> 'd list \<times> bool" where
  "update_one_upsert fp ev store =
     (if list_ex (\<lambda>d. fp d = fp ev) store then (store, False)
      else (store @ [ev], True))"

text \<open>
  The Teams connector, \<open>app/connectors/teams_connector.py\<close>, builds its own document in
  \<open>_detect_and_store\<close> and stores it with \<open>_store_event\<close>. The entries taken from
  \<open>meta\<close> may be \<open>None\<close>; the document has no entry \<open>rule\<close>; \<open>fingerprint\<close> and
  \<open>created_at\<close> are absent until \<open>_store_event\<close> sets them.
\<close>

record teams_event =
  t_platform :: string
  t_source :: string
  t_type :: string
  t_severity :: pyval
  t_found_at :: string
  t_author_id :: pyval
  t_author_name :: pyval
  t_container :: pyval
  t_container_id :: pyval
  t_container_name :: pyval
  t_record_id :: pyval
  t_url :: pyval
  t_snippet_redacted :: string
  t_raw_sample :: string
  t_fingerprint :: "string option"
  t_created_at :: "string option"

text \<open>\<open>v or ""\<close> on an entry of a document.\<close>

definition val_or_empty :: "pyval \<Rightarrow> string" where
  "val_or_empty v = (case v of PNone \<Rightarrow> [] | PStr x \<Rightarrow> x)"

text \<open>
  \<open>_fingerprint\<close> of the Teams connector; the digest and \<open>_strip_html\<close> are parameters.
\<close>

definition teams_fingerprint :: "(string \<Rightarrow> string) \<Rightarrow> (string \<Rightarrow> string) \<Rightarrow> teams_event \<Rightarrow> string" where
  "teams_fingerprint sha256 strip_html d =
     sha256 (join ''|'' [''teams'', t_type d, [], val_or_empty (t_container_id d),
                         val_or_empty (t_record_id d),
                         take 200 (strip_html (t_snippet_redacted d))])"

text \<open>
  \<open>_store_event\<close>: the same upsert as in the other connectors, inside a \<open>try\<close>. It returns
  \<open>True\<close> whenever \<open>update_one\<close> returns, without reading \<open>upserted_id\<close>, and \<open>False\<close> when
  \<open>update_one\<close> raises; whether the driver raises is the parameter \<open>raises\<close>.
  \<open>_detect_and_store\<close> counts the event as new when the result is \<open>True\<close>.
\<close>

definition store_event ::
  "(string \<Rightarrow> string) \<Rightarrow> (string \<Rightarrow> string) \<Rightarrow> string \<Rightarrow> bool \<Rightarrow>
   teams_event \<Rightarrow> teams_event list \<Rightarrow> teams_event list \<times> bool" where
  "store_event sha256 strip_html now_iso raises ev store =
     (let ev1 = ev\<lparr> t_fingerprint := Some (teams_fingerprint sha256 strip_html ev) \<rparr>;
          ev2 = ev1\<lparr> t_created_at := Some now_iso \<rparr>
      in if raises then (store, False)
         else (fst (update_one_upsert t_fingerprint ev2 store), True))"

text \<open>
  The adapters called for a new event. What an adapter does with the event is a
  parameter: it returns, or it raises an exception with a message.
\<close>

datatype sink =
  JiraTicket | GlpiTicket | ServiceNowTicket | SlackApiAlert | SlackWebhookAlert
  | WebhookBroadcast

datatype outcome = Returns | Raises string

record dispatch =
  invoked :: "sink list"
  printed :: "string list"

text \<open>
  One \<open>try: a(); b(); ... except Exception as e: print(msg, e)\<close> block: the calls are
  made in order, the first exception ends the block and is printed.
\<close>

fun try_block :: "(sink \<Rightarrow> outcome) \<Rightarrow> string \<Rightarrow> sink list \<Rightarrow> dispatch \<Rightarrow> dispatch" where
  "try_block adapter msg [] d = d"
| "try_block adapter msg (s # ss) d =
     (case adapter s of
        Returns \<Rightarrow> try_block adapter msg ss (d\<lparr>invoked := invoked d @ [s]\<rparr>)
      | Raises e \<Rightarrow> d\<lparr>invoked := invoked d @ [s], printed := printed d @ [msg @ '' '' @ e]\<rparr>)"

definition fan_out :: "(sink \<Rightarrow> outcome) \<Rightarrow> dispatch" where
  "fan_out adapter =
     (let d0 = \<lparr> invoked = [], printed = [] \<rparr>;
          d1 = try_block adapter ''[Slack] ticket create error:''
                 [JiraTicket, GlpiTicket, ServiceNowTicket, SlackApiAlert, SlackWebhookAlert] d0
      in try_block adapter ''[Integrations] webhook dispatch error:'' [WebhookBroadcast] d1)"

text \<open>
  The part of \<open>scan\<close> that handles one detected event: insert it unless its fingerprint is
  stored, and fan out only if it was inserted. The result is the new collection, the
  increment of \<open>count\<close> and the dispatch record.
\<close>

definition store_and_dispatch ::
  "(sink \<Rightarrow> outcome) \<Rightarrow> event \<Rightarrow> event list \<Rightarrow> event list \<times> nat \<times> dispatch" where
  "store_and_dispatch adapter ev store =
     (case update_one_upsert fingerprint ev store of
        (store', upserted) \<Rightarrow>
          if upserted then (store', 1, fan_out adapter)
          else (store', 0, \<lparr> invoked = [], printed = [] \<rparr>))"

section \<open>Compiling the pattern rules\<close>

text \<open>
  \<open>load_patterns().items()\<close> is the list of the (label, expression) pairs of
  \<open>patterns.json\<close>. The regular-expression compiler \<open>re.compile\<close> is a parameter: it gives
  a compiled pattern, or the message of the \<open>re.error\<close> it raises.
\<close>

datatype exn = ReError string | RuntimeError string | SinkError string

text \<open>
  The Slack, Jira, Trello and Confluence connectors build \<open>PATTERNS\<close> with a dictionary
  comprehension around \<open>re.compile\<close>, outside any \<open>try\<close>.
\<close>

fun PATTERNS :: "(string \<Rightarrow> string + 'rx) \<Rightarrow> (string \<times> string) list \<Rightarrow> exn + (string \<times> 'rx) list" where
  "PATTERNS re_compile [] = Inr []"
| "PATTERNS re_compile ((k, v) # kvs) =
     (case re_compile v of
        Inl e \<Rightarrow> Inl (ReError e)
      | Inr rx \<Rightarrow>
          (case PATTERNS re_compile kvs of
             Inl e \<Rightarrow> Inl e
           | Inr rest \<Rightarrow> Inr ((k, rx) # rest)))"

text \<open>
  \<open>_load_patterns\<close> of the Teams connector catches \<open>re.error\<close> for each entry, prints a
  line and goes on. The result is the compiled dictionary and the printed lines.
\<close>

fun load_patterns_teams ::
  "(string \<Rightarrow> string + 'rx) \<Rightarrow> (string \<times> string) list \<Rightarrow> (string \<times> 'rx) list \<times> string list" where
  "load_patterns_teams re_compile [] = ([], [])"
| "load_patterns_teams re_compile ((label, rx) # raw) =
     (case load_patterns_teams re_compile raw of
        (compiled, out) \<Rightarrow>
          (case re_compile rx of
             Inl e \<Rightarrow> (compiled, (''[Teams] bad regex for '' @ label @ '': '' @ e) # out)
           | Inr c \<Rightarrow> ((label, c) # compiled, out)))"

section \<open>The export walker: \<open>app/jobs/exporter_job.py\<close>\<close>

text \<open>
  The collection \<open>export_state\<close> maps the document id \<open>cursor:<dest>\<close> to the stored
  cursor value; the field \<open>updated_at\<close>, which nothing reads, is left out.
\<close>

type_synonym export_state = "string \<rightharpoonup> string"

definition get_cursor :: "export_state \<Rightarrow> string \<Rightarrow> string option" where
  "get_cursor st dest = st (''cursor:'' @ dest)"

definition set_cursor :: "export_state \<Rightarrow> string \<Rightarrow> string \<Rightarrow> export_state" where
  "set_cursor st dest cur = st(''cursor:'' @ dest \<mapsto> cur)"

text \<open>
  A page of \<open>/integrations/events\<close>, and what a sink client's \<open>send\<close> returns. The
  counts \<open>ok\<close> and \<open>failed\<close> go through \<open>int(x or 0)\<close>: \<open>Some n\<close> is a value that this
  turns into \<open>n\<close>, and \<open>None\<close> is a value that \<open>int\<close> rejects, such as the strings
  \<open>unknown\<close> and \<open>all\<close> of the generic client.
\<close>

record 'e page =
  events :: "'e list"
  next_cursor :: "string option"

record send_result =
  ok :: "int option"
  failed :: "int option"

record http_response =
  status_code :: nat
  resp_text :: string

text \<open>
  \<open>_fetch_page\<close>: the HTTP request is a parameter that gives the status, the text and the
  decoded body, or raises. A cursor that is \<open>None\<close> or empty is not sent.
\<close>

definition fetch_page ::
  "(string option \<Rightarrow> nat \<Rightarrow> exn + (http_response \<times> 'e page)) \<Rightarrow> string option \<Rightarrow> nat \<Rightarrow> exn + 'e page" where
  "fetch_page http_get cursor limit =
     (case http_get (if truthy cursor then cursor else None) limit of
        Inl e \<Rightarrow> Inl e
      | Inr (r, body) \<Rightarrow>
          if status_code r \<noteq> 200
          then Inl (RuntimeError (''Integrations API error: '' @ take 300 (resp_text r)))
          else Inr body)"

record summary =
  s_mode :: string
  sent :: int
  s_failed :: int
  pages :: nat
  cursor :: "string option"

text \<open>
  The loop of \<open>run_export\<close>. It ends when a page is empty or has no continuation token;
  nothing bounds the number of pages, so the model counts iterations down from \<open>fuel\<close>
  and gives \<open>None\<close> when they run out. An exception of the fetch or of the sink leaves
  the loop and the function; the state of \<open>export_state\<close> at that moment is returned with
  it.
\<close>

fun export_loop ::
  "nat \<Rightarrow> (string option \<Rightarrow> nat \<Rightarrow> exn + (http_response \<times> 'e page)) \<Rightarrow> ('e list \<Rightarrow> exn + send_result) \<Rightarrow>
   string \<Rightarrow> nat \<Rightarrow> export_state \<Rightarrow> string option \<Rightarrow> int \<Rightarrow> int \<Rightarrow> nat \<Rightarrow>
   (export_state \<times> (exn + summary)) option" where
  "export_loop 0 http_get send mode page_limit st cur total_ok total_fail pages' = None"
| "export_loop (Suc fuel) http_get send mode page_limit st cur total_ok total_fail pages' =
     (case fetch_page http_get cur page_limit of
        Inl e \<Rightarrow> Some (st, Inl e)
      | Inr data \<Rightarrow>
          let evs = events data; next_cur = next_cursor data;
              done = (\<lambda>ok' fail' n c. Some (st, Inr \<lparr> s_mode = mode, sent = ok', s_failed = fail',
                                                       pages = n, cursor = c \<rparr>))
          in if evs = [] then done total_ok total_fail pages' cur
             else
               (case send evs of
                  Inl e \<Rightarrow> Some (st, Inl e)
                | Inr res \<Rightarrow>
                    let total_ok' = (case ok res of None \<Rightarrow> total_ok | Some a \<Rightarrow> total_ok + a);
                        total_fail' = (case ok res of None \<Rightarrow> total_fail
                                       | Some a \<Rightarrow> (case failed res of None \<Rightarrow> total_fail
                                                    | Some b \<Rightarrow> total_fail + b));
                        pages'' = pages' + 1
                    in if truthy next_cur
                       then export_loop fuel http_get send mode page_limit
                              (set_cursor st mode (or_empty next_cur)) next_cur
                              total_ok' total_fail' pages''
                       else done total_ok' total_fail' pages'' cur))"

text \<open>
  \<open>run_export\<close>, from the point where the destination key \<open>mode\<close> is resolved and
  lower-cased and \<open>_make_client\<close> has built the sink client for it; the client's \<open>send\<close>
  is a parameter.
\<close>

definition run_export ::
  "nat \<Rightarrow> (string option \<Rightarrow> nat \<Rightarrow> exn + (http_response \<times> 'e page)) \<Rightarrow> ('e list \<Rightarrow> exn + send_result) \<Rightarrow>
   string \<Rightarrow> nat \<Rightarrow> export_state \<Rightarrow> (export_state \<times> (exn + summary)) option" where
  "run_export fuel http_get send mode page_limit st =
     export_loop fuel http_get send mode page_limit st (get_cursor st mode) 0 0 0"


section \<open>Listing events: \<open>app/integrations/schemas.py\<close> and \<open>app/api/integrations.py\<close>\<close>












text \<open>
  The query parameters and the query built from them. \<open>datetime.fromisoformat\<close> is a
  parameter that gives the datetime or \<open>None\<close> where Python raises \<open>ValueError\<close>; a
  timestamp that does not parse is ignored by \<open>_build_mongo_query\<close>.
\<close>

record event_query =
  q_platform :: "string option"
  q_severity :: "string option"
  q_label :: "string option"
  q_since :: "string option"
  q_until :: "string option"
  q_limit :: int
  q_cursor :: "string option"

record mongo_query =
  m_platform :: "string option"
  m_severity_regex :: "string option"
  m_label :: "string option"
  m_gte :: "datetime option"
  m_lte :: "datetime option"
  m_lt :: "datetime option"

definition parse_time :: "(string \<Rightarrow> datetime option) \<Rightarrow> string option \<Rightarrow> datetime option" where
  "parse_time fromisoformat v =
     (if truthy v then fromisoformat (replace (or_empty v) ''Z'' ''+00:00'') else None)"

definition build_mongo_query :: "(string \<Rightarrow> datetime option) \<Rightarrow> event_query \<Rightarrow> mongo_query" where
  "build_mongo_query fromisoformat q =
     \<lparr> m_platform = (if truthy (q_platform q) then Some (lower (or_empty (q_platform q))) else None),
       m_severity_regex =
         (if truthy (q_severity q) then Some (''^'' @ or_empty (q_severity q) @ ''$'') else None),
       m_label = (if truthy (q_label q) then q_label q else None),
       m_gte = parse_time fromisoformat (q_since q),
       m_lte = parse_time fromisoformat (q_until q),
       m_lt = parse_time fromisoformat (q_cursor q) \<rparr>"

text \<open>
  What \<open>events.find(query)\<close> selects. The store's regular-expression match with the option
  \<open>i\<close> is a parameter; \<open>detections.label\<close> matches a document one of whose detections has
  that label; datetimes are compared by \<open>dt_key\<close>.
\<close>

definition doc_matches :: "(string \<Rightarrow> string \<Rightarrow> bool) \<Rightarrow> mongo_query \<Rightarrow> event \<Rightarrow> bool" where
  "doc_matches regex_i mq doc =
     ((case m_platform mq of None \<Rightarrow> True | Some p \<Rightarrow> platform doc = p)
      \<and> (case m_severity_regex mq of None \<Rightarrow> True | Some r \<Rightarrow> regex_i r (severity doc))
      \<and> (case m_label mq of None \<Rightarrow> True
          | Some l \<Rightarrow> list_ex (\<lambda>d. d ''label'' = Some l) (detections doc))
      \<and> (case m_gte mq of None \<Rightarrow> True | Some t \<Rightarrow> dt_key t \<le> dt_key (found_at doc))
      \<and> (case m_lte mq of None \<Rightarrow> True | Some t \<Rightarrow> dt_key (found_at doc) \<le> dt_key t)
      \<and> (case m_lt mq of None \<Rightarrow> True | Some t \<Rightarrow> dt_key (found_at doc) < dt_key t))"

text \<open>
  \<open>.sort("found_at", -1)\<close>: newest first. The store does not say in which order it returns
  documents with the same timestamp; here they come in the reverse of their order in the
  collection.
\<close>

definition sort_newest_first :: "event list \<Rightarrow> event list" where
  "sort_newest_first docs = rev (sort_key (\<lambda>d. dt_key (found_at d)) docs)"

definition find_events ::
  "(string \<Rightarrow> datetime option) \<Rightarrow> (string \<Rightarrow> string \<Rightarrow> bool) \<Rightarrow> event list \<Rightarrow> event_query \<Rightarrow> event list" where
  "find_events fromisoformat regex_i store q =
     take (nat (q_limit q))
       (sort_newest_first (filter (doc_matches regex_i (build_mongo_query fromisoformat q)) store))"




section \<open>Sample data\<close>

definition sample_time :: datetime where
  "sample_time = \<lparr> year = 2024, month = 1, day = 2, hour = 3, minute = 4, second = 5,
                    microsecond = 0 \<rparr>"

definition sample_text :: string where
  "sample_text = ''my password is hunter2, card 4111-1111-1111-1111''"

definition det_password :: detection where
  "det_password = [''label'' \<mapsto> ''Password'', ''match'' \<mapsto> ''hunter2'']"

definition det_card :: detection where
  "det_card = [''label'' \<mapsto> ''Credit Card'', ''match'' \<mapsto> ''4111-1111-1111-1111'']"

definition sample_container :: "string \<rightharpoonup> pyval" where
  "sample_container = [''type'' \<mapsto> PStr ''channel'', ''id'' \<mapsto> PStr ''C1'']"

definition sample_meta :: "string \<rightharpoonup> pyval" where
  "sample_meta = [''pointer'' \<mapsto> PStr ''ts1'']"

definition sample_event :: event where
  "sample_event = make_event id remdups sample_time ''slack'' sample_container sample_text
                    [det_password, det_card] sample_meta"

definition ticket_sinks :: "sink list" where
  "ticket_sinks = [JiraTicket, GlpiTicket, ServiceNowTicket, SlackApiAlert, SlackWebhookAlert]"


fun jira_down :: "sink \<Rightarrow> outcome" where
  "jira_down JiraTicket = Raises ''connection timed out''"
| "jira_down s = Returns"

fun webhooks_down :: "sink \<Rightarrow> outcome" where
  "webhooks_down WebhookBroadcast = Raises ''connection refused''"
| "webhooks_down s = Returns"

fun sample_compile :: "string \<Rightarrow> string + string" where
  "sample_compile s = (if s = ''('' then Inl ''missing ), unterminated subpattern'' else Inr s)"

definition sample_patterns :: "(string \<times> string) list" where
  "sample_patterns = [(''Password'', ''password=.+''), (''Bad'', ''(''), (''Card'', ''[0-9]+'')]"

definition ok_response :: http_response where
  "ok_response = \<lparr> status_code = 200, resp_text = ''ok'' \<rparr>"

fun three_pages :: "string option \<Rightarrow> nat \<Rightarrow> exn + (http_response \<times> string page)" where
  "three_pages None limit = Inr (ok_response, \<lparr> events = [''e5'', ''e4''], next_cursor = Some ''t4'' \<rparr>)"
| "three_pages (Some c) limit =
     (if c = ''t4'' then Inr (ok_response, \<lparr> events = [''e3'', ''e2''], next_cursor = Some ''t2'' \<rparr>)
      else if c = ''t2'' then Inr (ok_response, \<lparr> events = [''e1''], next_cursor = Some ''t1'' \<rparr>)
      else Inr (ok_response, \<lparr> events = [], next_cursor = None \<rparr>))"

fun sink_rejects_page2 :: "string list \<Rightarrow> exn + send_result" where
  "sink_rejects_page2 evs =
     (if evs = [''e3'', ''e2''] then Inr \<lparr> ok = Some 0, failed = Some 2 \<rparr>
      else Inr \<lparr> ok = Some (int (length evs)), failed = Some 0 \<rparr>)"

fun sink_raises_page2 :: "string list \<Rightarrow> exn + send_result" where
  "sink_raises_page2 evs =
     (if evs = [''e3'', ''e2''] then Inl (SinkError ''connection reset'')
      else Inr \<lparr> ok = Some (int (length evs)), failed = Some 0 \<rparr>)"










section \<open>String replacement\<close>

lemma prefix_disjoint_Nil:
  assumes "set new \<inter> set m = {}" "new \<noteq> []" "prefix m (new @ r)"
  shows "m = []"
proof (rule ccontr)
  assume "m \<noteq> []"
  then obtain a m' where m: "m = a # m'" by (cases m) auto
  from assms(2) obtain b new' where n: "new = b # new'" by (cases new) auto
  from assms(3) m n have "a = b" by simp
  with assms(1) m n show False by auto
qed

lemma suffix_disjoint_Nil:
  assumes "set new \<inter> set m = {}" "new \<noteq> []" "suffix m new"
  shows "m = []"
  using assms by (metis Int_absorb1 set_empty set_mono_suffix)

lemma sublist_disjoint_Nil:
  assumes "set new \<inter> set m = {}" "sublist m new"
  shows "m = []"
  using assms by (metis Int_absorb1 set_empty set_mono_sublist)

lemma replace_prefix:
  assumes "set new \<inter> set m = {}" "new \<noteq> []" "old \<noteq> []"
  shows "prefix m (replace s old new) \<Longrightarrow> prefix m s"
  using assms
proof (induction s old new arbitrary: m rule: replace.induct)
  case (1 old new)
  then show ?case by simp
next
  case (2 c cs old new)
  show ?case
  proof (cases "prefix old (c # cs)")
    case True
    with 2 have "prefix m (new @ replace (drop (length old) (c # cs)) old new)" by simp
    with 2 have "m = []" using prefix_disjoint_Nil by blast
    then show ?thesis by simp
  next
    case False
    with 2 have p: "prefix m (c # replace cs old new)" by simp
    show ?thesis
    proof (cases m)
      case Nil
      then show ?thesis by simp
    next
      case (Cons a m')
      with p have a: "a = c" and p': "prefix m' (replace cs old new)" by simp_all
      from 2(5) Cons have "set new \<inter> set m' = {}" by auto
      with 2(3)[OF \<open>old \<noteq> []\<close> False p' _ \<open>new \<noteq> []\<close> \<open>old \<noteq> []\<close>] have "prefix m' cs" by simp
      with a Cons show ?thesis by simp
    qed
  qed
qed

lemma sublist_mask_append:
  assumes "set new \<inter> set m = {}" "new \<noteq> []" "sublist m (new @ r)"
  shows "sublist m r"
proof -
  from assms(3) consider "sublist m new" | "sublist m r"
    | xs1 xs2 where "m = xs1 @ xs2" "suffix xs1 new" "prefix xs2 r"
    unfolding sublist_append by blast
  then show ?thesis
  proof cases
    case 1
    with assms(1) have "m = []" by (rule sublist_disjoint_Nil)
    then show ?thesis by simp
  next
    case 2
    then show ?thesis .
  next
    case 3
    from assms(1) 3(1) have "set new \<inter> set xs1 = {}" by auto
    with assms(2) 3(2) have "xs1 = []" using suffix_disjoint_Nil by blast
    with 3 show ?thesis by auto
  qed
qed

lemma replace_sublist:
  assumes "set new \<inter> set m = {}" "new \<noteq> []" "old \<noteq> []"
  shows "sublist m (replace s old new) \<Longrightarrow> sublist m s"
  using assms
proof (induction s old new rule: replace.induct)
  case (1 old new)
  then show ?case by simp
next
  case (2 c cs old new)
  show ?case
  proof (cases "prefix old (c # cs)")
    case True
    then obtain r where r: "c # cs = old @ r" by (auto simp: prefix_def)
    then have d: "drop (length old) (c # cs) = r" by (metis append_eq_conv_conj)
    from True 2 have "sublist m (new @ replace r old new)" by (simp add: d)
    with 2 have "sublist m (replace r old new)" using sublist_mask_append by blast
    with 2(2)[OF \<open>old \<noteq> []\<close> True] 2(5,6,7) d have "sublist m r" by simp
    then show ?thesis unfolding r by (auto simp: sublist_append)
  next
    case False
    with 2 have s: "sublist m (c # replace cs old new)" by simp
    then consider "prefix m (c # replace cs old new)" | "sublist m (replace cs old new)"
      unfolding sublist_Cons_right by blast
    then show ?thesis
    proof cases
      case 1
      with False 2 have "prefix m (replace (c # cs) old new)" by simp
      with 2 have "prefix m (c # cs)" using replace_prefix by blast
      then show ?thesis by (rule prefix_imp_sublist)
    next
      case 2
      with "2.IH"(3)[OF \<open>old \<noteq> []\<close> False] "2.prems" have "sublist m cs" by simp
      then show ?thesis by (simp add: sublist_Cons_right)
    qed
  qed
qed

lemma replace_removes:
  assumes "set new \<inter> set old = {}" "new \<noteq> []" "old \<noteq> []"
  shows "\<not> sublist old (replace s old new)"
  using assms
proof (induction s old new rule: replace.induct)
  case (1 old new)
  then show ?case by simp
next
  case (2 c cs old new)
  show ?case
  proof (cases "prefix old (c # cs)")
    case True
    show ?thesis
    proof
      assume "sublist old (replace (c # cs) old new)"
      with True 2 have "sublist old (new @ replace (drop (length old) (c # cs)) old new)" by simp
      with 2 have "sublist old (replace (drop (length old) (c # cs)) old new)"
        using sublist_mask_append by blast
      with 2(2)[OF \<open>old \<noteq> []\<close> True] 2(4,5,6) show False by simp
    qed
  next
    case False
    show ?thesis
    proof
      assume "sublist old (replace (c # cs) old new)"
      with False 2 have s: "sublist old (c # replace cs old new)" by simp
      then consider "prefix old (c # replace cs old new)" | "sublist old (replace cs old new)"
        unfolding sublist_Cons_right by blast
      then show False
      proof cases
        case 1
        with False 2 have "prefix old (replace (c # cs) old new)" by simp
        with 2 have "prefix old (c # cs)" using replace_prefix by blast
        with False show False by simp
      next
        case 2
        with "2.IH"(3)[OF \<open>old \<noteq> []\<close> False] "2.prems" show False by simp
      qed
    qed
  qed
qed


lemma redact_step_keeps_absent:
  assumes "CHR ''*'' \<notin> set m" "\<not> sublist m out"
  shows "\<not> sublist m (if x \<noteq> [] then replace out x ''****'' else out)"
proof (cases "x = []")
  case True
  with assms show ?thesis by simp
next
  case False
  from assms(1) have "set ''****'' \<inter> set m = {}" by simp
  with False assms(2) show ?thesis using replace_sublist[of "''****''" m x out] by auto
qed

lemma redact_fold_removes:
  assumes "m \<in> set ms" "m \<noteq> []" "CHR ''*'' \<notin> set m"
  shows "\<not> sublist m (foldl (\<lambda>out m. if m \<noteq> [] then replace out m ''****'' else out) text ms)"
  using assms(1)
proof (induction ms rule: rev_induct)
  case Nil
  then show ?case by simp
next
  case (snoc x xs)
  show ?case
  proof (cases "x = m")
    case True
    from assms(3) have "set ''****'' \<inter> set m = {}" by simp
    then have "\<not> sublist m (replace (foldl (\<lambda>out m. if m \<noteq> [] then replace out m ''****'' else out) text xs) m ''****'')"
      using assms(2) by (intro replace_removes) simp_all
    with True assms(2) show ?thesis by simp
  next
    case False
    with snoc have "\<not> sublist m (foldl (\<lambda>out m. if m \<noteq> [] then replace out m ''****'' else out) text xs)"
      by simp
    from redact_step_keeps_absent[OF assms(3) this, of x] show ?thesis by simp
  qed
qed

lemma mask_weight_append: "mask_weight (xs @ ys) = mask_weight xs + mask_weight ys"
  by (simp add: mask_weight_def)

lemma mask_weight_bounds: "length s \<le> mask_weight s \<and> mask_weight s \<le> 4 * length s"
  by (induction s) (auto simp: mask_weight_def)

lemma mask_weight_ge4:
  assumes "c \<in> set old" "c \<noteq> CHR ''*''"
  shows "4 \<le> mask_weight old"
  using assms by (induction old) (auto simp: mask_weight_def)

lemma replace_mask_weight:
  assumes "old \<noteq> []" "\<exists>c\<in>set old. c \<noteq> CHR ''*''"
  shows "mask_weight (replace s old ''****'') \<le> mask_weight s"
  using assms
proof (induction s old "''****''" rule: replace.induct)
  case (1 old)
  then show ?case by simp
next
  case (2 c cs old)
  show ?case
  proof (cases "prefix old (c # cs)")
    case True
    then obtain r where r: "c # cs = old @ r" by (auto simp: prefix_def)
    then have d: "drop (length old) (c # cs) = r" by (metis append_eq_conv_conj)
    from "2.prems" have "4 \<le> mask_weight old" using mask_weight_ge4 by blast
    moreover from "2.hyps"(2)[OF \<open>old \<noteq> []\<close> True] "2.prems" d
    have "mask_weight (replace r old ''****'') \<le> mask_weight r" by simp
    moreover have "mask_weight ''****'' = 4" by (simp add: mask_weight_def)
    ultimately have le: "mask_weight (''****'' @ replace r old ''****'') \<le> mask_weight (old @ r)"
      unfolding mask_weight_append by linarith
    from True "2.prems"(1) d
    have e: "replace (c # cs) old ''****'' = ''****'' @ replace r old ''****''" by simp
    show ?thesis unfolding e unfolding r by (rule le)
  next
    case False
    from "2.hyps"(3)[OF \<open>old \<noteq> []\<close> False] "2.prems"
    have "mask_weight (replace cs old ''****'') \<le> mask_weight cs" by simp
    with False "2.prems" show ?thesis by (simp add: mask_weight_def)
  qed
qed

lemma redact_fold_weight:
  assumes "\<forall>m\<in>set ms. CHR ''*'' \<notin> set m"
  shows "mask_weight (foldl (\<lambda>out m. if m \<noteq> [] then replace out m ''****'' else out) text ms)
         \<le> mask_weight text"
  using assms
proof (induction ms rule: rev_induct)
  case Nil
  then show ?case by simp
next
  case (snoc x xs)
  let ?out = "foldl (\<lambda>out m. if m \<noteq> [] then replace out m ''****'' else out) text xs"
  from snoc have ih: "mask_weight ?out \<le> mask_weight text" by simp
  show ?case
  proof (cases "x = []")
    case True
    with ih show ?thesis by simp
  next
    case False
    then obtain c where "c \<in> set x" by (cases x) auto
    moreover from snoc.prems have "CHR ''*'' \<notin> set x" by simp
    ultimately have "\<exists>c\<in>set x. c \<noteq> CHR ''*''" by metis
    with False have "mask_weight (replace ?out x ''****'') \<le> mask_weight ?out"
      by (rule replace_mask_weight)
    with ih False show ?thesis by simp
  qed
qed

lemma replace_replicate: "new \<noteq> [] \<Longrightarrow> replace (replicate n c) [c] new = concat (replicate n new)"
  by (induction n) simp_all


section \<open>Properties of the event normalizer\<close>

lemma event_matches_set:
  "set (event_matches ds) = {m. m \<noteq> [] \<and> (\<exists>d\<in>set ds. d ''match'' = Some m)}"
proof -
  have "set (map (\<lambda>d. get_or d ''match'' []) (filter (\<lambda>d. truthy (d ''match'')) ds))
        = {m. m \<noteq> [] \<and> (\<exists>d\<in>set ds. d ''match'' = Some m)}" (is "?L = ?R")
  proof (intro set_eqI iffI)
    fix m assume "m \<in> ?L"
    then show "m \<in> ?R"
      by (auto simp: truthy_def get_or_def split: option.splits)
  next
    fix m assume "m \<in> ?R"
    then obtain d where d: "d \<in> set ds" "d ''match'' = Some m" "m \<noteq> []" by blast
    then have "truthy (d ''match'')" "get_or d ''match'' [] = m"
      by (simp_all add: truthy_def get_or_def)
    with d(1) show "m \<in> ?L"
      by force
  qed
  moreover have "set (event_matches ds) = ?L" by (simp add: event_matches_def)
  ultimately show ?thesis by simp
qed


lemma event_matches_eq:
  "event_matches ds = sorted_list_of_set {m. m \<noteq> [] \<and> (\<exists>d\<in>set ds. d ''match'' = Some m)}"
  unfolding event_matches_set[symmetric] by (simp add: event_matches_def)

lemma event_matches_mset: "mset ds' = mset ds \<Longrightarrow> event_matches ds' = event_matches ds"
  using mset_eq_setD[of ds' ds] by (simp add: event_matches_eq)

lemma event_matches_sample: "event_matches [det_password, det_card] = [''4111-1111-1111-1111'', ''hunter2'']"
  by (simp add: event_matches_def det_password_def det_card_def truthy_def get_or_def
        sorted_list_of_set_sort_remdups)

text \<open>
  Claim C1. The fingerprint is the digest of \<open>platform|container.id|pointer|\<close> followed by
  the comma-joined sorted list of the distinct non-empty match strings of the detections.
  It is therefore the same for every permutation of the detection list, and it depends
  neither on the clock (\<open>found_at\<close>), nor on the text, nor on the order in which the set of
  matches is walked.
\<close>

theorem make_event_fingerprint:
  "fingerprint (make_event sha256 iter now plat cont text ds meta) =
     sha256 (plat @ ''|'' @ py_str (py_get cont ''id'') @ ''|''
             @ (case meta ''pointer'' of None \<Rightarrow> [] | Some v \<Rightarrow> py_str v) @ ''|''
             @ join '','' (sorted_list_of_set {m. m \<noteq> [] \<and> (\<exists>d\<in>set ds. d ''match'' = Some m)}))
   \<and> (\<forall>ds' iter' now' text'. mset ds' = mset ds \<longrightarrow>
         fingerprint (make_event sha256 iter' now' plat cont text' ds' meta)
         = fingerprint (make_event sha256 iter now plat cont text ds meta))"
proof (intro conjI allI impI)
  show "fingerprint (make_event sha256 iter now plat cont text ds meta) =
     sha256 (plat @ ''|'' @ py_str (py_get cont ''id'') @ ''|''
             @ (case meta ''pointer'' of None \<Rightarrow> [] | Some v \<Rightarrow> py_str v) @ ''|''
             @ join '','' (sorted_list_of_set {m. m \<noteq> [] \<and> (\<exists>d\<in>set ds. d ''match'' = Some m)}))"
    by (simp add: make_event_def Let_def fp_basis_def event_matches_eq)
next
  fix ds' iter' now' text'
  assume "mset ds' = mset ds"
  then have "event_matches ds' = event_matches ds" by (rule event_matches_mset)
  then show "fingerprint (make_event sha256 iter' now' plat cont text' ds' meta)
         = fingerprint (make_event sha256 iter now plat cont text ds meta)"
    by (simp add: make_event_def Let_def)
qed

theorem make_event_fingerprint_witness:
  "mset [det_card, det_password] = mset [det_password, det_card]
   \<and> fingerprint (make_event id rev (sample_time\<lparr>year := 2025\<rparr>) ''slack''
                    sample_container sample_text [det_card, det_password] sample_meta)
     = fingerprint (make_event id remdups sample_time ''slack''
                    sample_container sample_text [det_password, det_card] sample_meta)
   \<and> fingerprint (make_event id remdups sample_time ''slack''
                    sample_container sample_text [det_password, det_card] sample_meta)
     = ''slack|C1|ts1|4111-1111-1111-1111,hunter2''"
proof -
  have p: "mset [det_card, det_password] = mset [det_password, det_card]" by simp
  note t = make_event_fingerprint[of id remdups sample_time "''slack''" sample_container
             sample_text "[det_password, det_card]" sample_meta]
  from t p have "fingerprint (make_event id rev (sample_time\<lparr>year := 2025\<rparr>) ''slack''
                    sample_container sample_text [det_card, det_password] sample_meta)
     = fingerprint (make_event id remdups sample_time ''slack''
                    sample_container sample_text [det_password, det_card] sample_meta)"
    by blast
  moreover have "fingerprint (make_event id remdups sample_time ''slack''
                    sample_container sample_text [det_password, det_card] sample_meta)
     = ''slack|C1|ts1|4111-1111-1111-1111,hunter2''"
    by (simp add: make_event_def Let_def fp_basis_def event_matches_sample py_get_def
          sample_container_def sample_meta_def)
  ultimately show ?thesis using p by blast
qed

text \<open>
  Claim C5, as the code has it. \<open>make_event\<close> cuts the text to 4000 characters and redacts
  that. A non-empty matched string that does not contain the mask character \<open>*\<close> does not
  occur in the redacted snippet, whatever the other matches are and in whatever order the
  set of matches is walked. When no matched string contains \<open>*\<close>, the redacted snippet is at
  most four times as long as the cut text, so at most 16000 characters. \<open>make_event\<close> has no
  900-character bound.
\<close>

theorem make_event_redaction:
  assumes "set_order iter"
  shows "snippet_redacted (make_event sha256 iter now plat cont text ds meta)
           = redact iter (take 4000 text) (event_matches ds)
       \<and> (\<forall>d\<in>set ds. \<forall>m. d ''match'' = Some m \<and> m \<noteq> [] \<and> CHR ''*'' \<notin> set m \<longrightarrow>
             \<not> sublist m (snippet_redacted (make_event sha256 iter now plat cont text ds meta)))
       \<and> ((\<forall>d\<in>set ds. \<forall>m. d ''match'' = Some m \<longrightarrow> CHR ''*'' \<notin> set m) \<longrightarrow>
             length (snippet_redacted (make_event sha256 iter now plat cont text ds meta))
               \<le> 4 * min (length text) 4000)"
proof -
  let ?ev = "make_event sha256 iter now plat cont text ds meta"
  have eq: "snippet_redacted ?ev = redact iter (take 4000 text) (event_matches ds)"
    by (simp add: make_event_def Let_def)
  from assms have it: "set (iter (event_matches ds)) = set (event_matches ds)"
    by (simp add: set_order_def)
  have gone: "\<not> sublist m (snippet_redacted ?ev)"
    if "d \<in> set ds" and m: "d ''match'' = Some m \<and> m \<noteq> [] \<and> CHR ''*'' \<notin> set m" for d m
  proof -
    from that have "m \<in> set (iter (event_matches ds))" unfolding it event_matches_set by blast
    with m have "\<not> sublist m (redact iter (take 4000 text) (event_matches ds))"
      unfolding redact_def by (intro redact_fold_removes) simp_all
    then show ?thesis unfolding eq .
  qed
  have len: "length (snippet_redacted ?ev) \<le> 4 * min (length text) 4000"
    if a: "\<forall>d\<in>set ds. \<forall>m. d ''match'' = Some m \<longrightarrow> CHR ''*'' \<notin> set m"
  proof -
    let ?r = "redact iter (take 4000 text) (event_matches ds)"
    from a have "\<forall>m\<in>set (iter (event_matches ds)). CHR ''*'' \<notin> set m"
      unfolding it event_matches_set by blast
    then have "mask_weight ?r \<le> mask_weight (take 4000 text)"
      unfolding redact_def by (rule redact_fold_weight)
    moreover have "length ?r \<le> mask_weight ?r"
      using mask_weight_bounds by blast
    moreover have "mask_weight (take 4000 text) \<le> 4 * length (take 4000 text)"
      using mask_weight_bounds by blast
    ultimately have "length ?r \<le> 4 * length (take 4000 text)"
      by linarith
    then show ?thesis unfolding eq length_take .
  qed
  from eq gone len show ?thesis by blast
qed


theorem make_event_redaction_witness:
  "set_order remdups
   \<and> \<not> sublist ''hunter2'' (snippet_redacted (make_event id remdups sample_time ''slack''
         sample_container sample_text [det_password, det_card] sample_meta))
   \<and> length (snippet_redacted (make_event id remdups sample_time ''slack''
         sample_container sample_text [det_password, det_card] sample_meta)) \<le> 192"
proof -
  let ?ev = "make_event id remdups sample_time ''slack''
               sample_container sample_text [det_password, det_card] sample_meta"
  have h: "set_order remdups" by (simp add: set_order_def)
  note t = make_event_redaction[OF h, of id sample_time "''slack''" sample_container
             sample_text "[det_password, det_card]" sample_meta]
  from t have a: "\<forall>d\<in>set [det_password, det_card].
      \<forall>m. d ''match'' = Some m \<and> m \<noteq> [] \<and> CHR ''*'' \<notin> set m \<longrightarrow>
          \<not> sublist m (snippet_redacted ?ev)" by blast
  have "det_password \<in> set [det_password, det_card]" by simp
  with a have "\<forall>m. det_password ''match'' = Some m \<and> m \<noteq> [] \<and> CHR ''*'' \<notin> set m \<longrightarrow>
             \<not> sublist m (snippet_redacted ?ev)" by (rule bspec)
  then have "det_password ''match'' = Some ''hunter2'' \<and> ''hunter2'' \<noteq> []
               \<and> CHR ''*'' \<notin> set ''hunter2'' \<longrightarrow>
             \<not> sublist ''hunter2'' (snippet_redacted ?ev)" by (rule spec)
  then have 1: "\<not> sublist ''hunter2'' (snippet_redacted ?ev)" by (simp add: det_password_def)
  from t have "(\<forall>d\<in>set [det_password, det_card]. \<forall>m. d ''match'' = Some m \<longrightarrow> CHR ''*'' \<notin> set m)
       \<longrightarrow> length (snippet_redacted ?ev) \<le> 4 * min (length sample_text) 4000"
    by blast
  then have 2: "length (snippet_redacted ?ev) \<le> 192"
    by (simp add: det_password_def det_card_def sample_text_def)
  from h 1 2 show ?thesis by blast
qed

text \<open>
  Claim C5 as stated fails twice. A match that is itself the mask character is replaced
  by four of them, so it still occurs in the redacted snippet; and 4000 characters that
  are each a match become 16000 characters, above both bounds the claim names.
\<close>

theorem make_event_redaction_counterexample:
  "sublist ''*'' (snippet_redacted (make_event id remdups sample_time ''slack''
      Map.empty ''*'' [[''label'' \<mapsto> ''Note'', ''match'' \<mapsto> ''*'']] Map.empty))
   \<and> length (snippet_redacted (make_event id remdups sample_time ''slack''
      Map.empty (replicate 4000 CHR ''a'') [[''label'' \<mapsto> ''Note'', ''match'' \<mapsto> ''a'']]
      Map.empty)) = 16000"
proof
  show "sublist ''*'' (snippet_redacted (make_event id remdups sample_time ''slack''
      Map.empty ''*'' [[''label'' \<mapsto> ''Note'', ''match'' \<mapsto> ''*'']] Map.empty))"
    by (simp add: make_event_def Let_def redact_def event_matches_def truthy_def get_or_def
          sorted_list_of_set_sort_remdups sublist_code)
  show "length (snippet_redacted (make_event id remdups sample_time ''slack''
      Map.empty (replicate 4000 CHR ''a'') [[''label'' \<mapsto> ''Note'', ''match'' \<mapsto> ''a'']]
      Map.empty)) = 16000"
    by (simp add: make_event_def Let_def redact_def event_matches_def truthy_def get_or_def
          sorted_list_of_set_sort_remdups replace_replicate length_concat sum_list_replicate)
qed

text \<open>
  Claim C7, as the code has it. The severity is the capitalised string \<open>High\<close> when the
  lower-cased label of some detection starts with \<open>password\<close>, \<open>private\<close>, \<open>api\<close> or
  \<open>credit\<close>, and the capitalised string \<open>Medium\<close> otherwise; a detection without a label
  counts as the empty label. Lower-cased, as every reader of the field does, these are
  \<open>high\<close> and \<open>medium\<close>.
\<close>

theorem make_event_severity:
  "severity (make_event sha256 iter now plat cont text ds meta) =
     (if \<exists>d\<in>set ds. \<exists>p\<in>{''password'', ''private'', ''api'', ''credit''}.
            prefix p (lower (case d ''label'' of None \<Rightarrow> [] | Some l \<Rightarrow> l))
      then ''High'' else ''Medium'')
   \<and> lower (severity (make_event sha256 iter now plat cont text ds meta)) =
     (if \<exists>d\<in>set ds. \<exists>p\<in>{''password'', ''private'', ''api'', ''credit''}.
            prefix p (lower (case d ''label'' of None \<Rightarrow> [] | Some l \<Rightarrow> l))
      then ''high'' else ''medium'')"
proof -
  have l: "lower ''High'' = ''high''" "lower ''Medium'' = ''medium''"
    by (simp_all add: lower_def lower_char_def ascii_upper_def ascii_lower_def)
  have "severity (make_event sha256 iter now plat cont text ds meta) =
     (if \<exists>d\<in>set ds. \<exists>p\<in>{''password'', ''private'', ''api'', ''credit''}.
            prefix p (lower (case d ''label'' of None \<Rightarrow> [] | Some l \<Rightarrow> l))
      then ''High'' else ''Medium'')"
    by (simp add: make_event_def Let_def startswith_def list_ex_iff get_or_def)
  with l show ?thesis by (simp del: One_nat_def)
qed

theorem make_event_severity_witness:
  "severity (make_event id remdups sample_time ''slack'' sample_container ''reset''
      [[''label'' \<mapsto> ''password-reset-token'', ''match'' \<mapsto> ''tok'']] sample_meta) = ''High''
   \<and> severity (make_event id remdups sample_time ''slack'' sample_container ''note''
      [[''label'' \<mapsto> ''internal-note'', ''match'' \<mapsto> ''tok'']] sample_meta) = ''Medium''
   \<and> severity (make_event id remdups sample_time ''slack'' sample_container sample_text
      [det_password, det_card] sample_meta) = ''High''"
  using make_event_severity[of id remdups sample_time "''slack''" sample_container "''reset''"
      "[[''label'' \<mapsto> ''password-reset-token'', ''match'' \<mapsto> ''tok'']]" sample_meta]
    make_event_severity[of id remdups sample_time "''slack''" sample_container "''note''"
      "[[''label'' \<mapsto> ''internal-note'', ''match'' \<mapsto> ''tok'']]" sample_meta]
    make_event_severity[of id remdups sample_time "''slack''" sample_container sample_text
      "[det_password, det_card]" sample_meta]
  by (simp add: lower_def lower_char_def ascii_upper_def ascii_lower_def det_password_def
        det_card_def)

text \<open>
  Claim C7 as stated fails on the spelling: for the label \<open>password-reset-token\<close> the
  severity is \<open>High\<close>, not \<open>high\<close>, and for \<open>internal-note\<close> it is \<open>Medium\<close>, not \<open>medium\<close>.
\<close>

theorem make_event_severity_counterexample:
  "severity (make_event id remdups sample_time ''slack'' sample_container ''reset''
      [[''label'' \<mapsto> ''password-reset-token'', ''match'' \<mapsto> ''tok'']] sample_meta) \<noteq> ''high''
   \<and> severity (make_event id remdups sample_time ''slack'' sample_container ''note''
      [[''label'' \<mapsto> ''internal-note'', ''match'' \<mapsto> ''tok'']] sample_meta) \<noteq> ''medium''"
  by (simp add: make_event_def Let_def startswith_def get_or_def lower_def lower_char_def
        ascii_upper_def ascii_lower_def)

section \<open>Properties of the subscription filters\<close>

lemma lower_Nil_iff: "lower s = [] \<longleftrightarrow> s = []"
  by (simp add: lower_def)

lemma event_labels_set:
  "set (event_labels ev) = {l. l \<noteq> [] \<and> (\<exists>d\<in>set (detections ev). d ''label'' = Some l)}"
  (is "?L = ?R")
proof (intro set_eqI iffI)
  fix l assume "l \<in> ?L"
  then show "l \<in> ?R"
    by (auto simp: event_labels_def truthy_def get_or_def split: option.splits)
next
  fix l assume "l \<in> ?R"
  then obtain d where d: "d \<in> set (detections ev)" "d ''label'' = Some l" "l \<noteq> []" by blast
  then have "truthy (d ''label'')" "get_or d ''label'' [] = l"
    by (simp_all add: truthy_def get_or_def)
  with d(1) show "l \<in> ?L" unfolding event_labels_def by force
qed

lemma no_filters_iff:
  "flt = no_filters \<longleftrightarrow> f_platform flt = None \<and> f_severity flt = None \<and> f_labels flt = None"
  by (cases flt) (simp add: no_filters_def)

lemma match_filters_iff:
  "match_filters ev flt \<longleftrightarrow>
     (f_platform flt = None \<and> f_severity flt = None \<and> f_labels flt = None)
     \<or> ((\<forall>v. f_platform flt = Some v \<longrightarrow> lower (or_empty v) = lower (platform ev))
        \<and> (\<forall>v. f_severity flt = Some v \<longrightarrow> lower (or_empty v) = lower (severity ev))
        \<and> (\<forall>v. f_labels flt = Some v \<longrightarrow>
              (\<exists>l\<in>set (or_empty v). l \<noteq> [] \<and> (\<exists>d\<in>set (detections ev). d ''label'' = Some l))))"
proof -
  have i: "set want \<inter> set (event_labels ev) = {} \<longleftrightarrow>
        \<not> (\<exists>l\<in>set want. l \<noteq> [] \<and> (\<exists>d\<in>set (detections ev). d ''label'' = Some l))" for want
    unfolding event_labels_set by blast
  show ?thesis
    unfolding match_filters_def Let_def no_filters_iff i
    by (auto split: option.splits)
qed


lemma sample_event_fields:
  "platform sample_event = ''slack''" "severity sample_event = ''High''"
  "detections sample_event = [det_password, det_card]"
  by (simp_all add: sample_event_def make_event_def Let_def startswith_def get_or_def lower_def
        lower_char_def ascii_upper_def ascii_lower_def det_password_def)

text \<open>
  Claim C6. \<open>match_filters\<close> is true exactly when no filter is set, or every filter that is
  set agrees with the event: the platform and the severity are equal to the event's,
  case-insensitively, and some requested label is the (non-empty) label of one of the
  event's detections. So a subscription with severity \<open>high\<close> never matches a medium
  event, one with the labels \<open>[Credit Card]\<close> matches exactly the events that have a
  detection labelled \<open>Credit Card\<close>, and one without filters matches every event.
\<close>

theorem match_filters_spec:
  "(match_filters ev flt \<longleftrightarrow>
     (f_platform flt = None \<and> f_severity flt = None \<and> f_labels flt = None)
     \<or> ((\<forall>v. f_platform flt = Some v \<longrightarrow> lower (or_empty v) = lower (platform ev))
        \<and> (\<forall>v. f_severity flt = Some v \<longrightarrow> lower (or_empty v) = lower (severity ev))
        \<and> (\<forall>v. f_labels flt = Some v \<longrightarrow>
              (\<exists>l\<in>set (or_empty v). l \<noteq> [] \<and> (\<exists>d\<in>set (detections ev). d ''label'' = Some l)))))
   \<and> (f_severity flt = Some (Some ''high'') \<and> lower (severity ev) = ''medium''
        \<longrightarrow> \<not> match_filters ev flt)
   \<and> (match_filters ev (no_filters\<lparr>f_labels := Some (Some [''Credit Card''])\<rparr>)
        \<longleftrightarrow> (\<exists>d\<in>set (detections ev). d ''label'' = Some ''Credit Card''))
   \<and> match_filters ev no_filters"
proof (intro conjI)
  show "match_filters ev flt \<longleftrightarrow>
     (f_platform flt = None \<and> f_severity flt = None \<and> f_labels flt = None)
     \<or> ((\<forall>v. f_platform flt = Some v \<longrightarrow> lower (or_empty v) = lower (platform ev))
        \<and> (\<forall>v. f_severity flt = Some v \<longrightarrow> lower (or_empty v) = lower (severity ev))
        \<and> (\<forall>v. f_labels flt = Some v \<longrightarrow>
              (\<exists>l\<in>set (or_empty v). l \<noteq> [] \<and> (\<exists>d\<in>set (detections ev). d ''label'' = Some l))))"
    by (rule match_filters_iff)
  have h: "lower ''high'' \<noteq> ''medium''"
    by (simp add: lower_def)
  show "f_severity flt = Some (Some ''high'') \<and> lower (severity ev) = ''medium''
        \<longrightarrow> \<not> match_filters ev flt"
    unfolding match_filters_iff using h by (auto simp: or_empty_def)
  show "match_filters ev (no_filters\<lparr>f_labels := Some (Some [''Credit Card''])\<rparr>)
        \<longleftrightarrow> (\<exists>d\<in>set (detections ev). d ''label'' = Some ''Credit Card'')"
    unfolding match_filters_iff by (simp add: no_filters_def or_empty_def)
  show "match_filters ev no_filters"
    by (simp add: match_filters_def)
qed

theorem match_filters_spec_witness:
  "match_filters sample_event (no_filters\<lparr>f_platform := Some (Some ''Slack'')\<rparr>)
   \<and> \<not> match_filters (sample_event\<lparr>severity := ''Medium''\<rparr>) (no_filters\<lparr>f_severity := Some (Some ''high'')\<rparr>)
   \<and> match_filters sample_event (no_filters\<lparr>f_labels := Some (Some [''Credit Card''])\<rparr>)
   \<and> \<not> match_filters (sample_event\<lparr>detections := [det_password]\<rparr>)
         (no_filters\<lparr>f_labels := Some (Some [''Credit Card''])\<rparr>)"
proof -
  have l: "lower ''Slack'' = ''slack''" "lower ''slack'' = ''slack''" "lower ''Medium'' = ''medium''"
    by (simp_all add: lower_def lower_char_def ascii_upper_def ascii_lower_def)
  have 1: "match_filters sample_event (no_filters\<lparr>f_platform := Some (Some ''Slack'')\<rparr>)"
    using match_filters_spec[where ev = sample_event and flt = "no_filters\<lparr>f_platform := Some (Some ''Slack'')\<rparr>"] l
    by (simp add: no_filters_def or_empty_def sample_event_fields)
  have 2: "\<not> match_filters (sample_event\<lparr>severity := ''Medium''\<rparr>) (no_filters\<lparr>f_severity := Some (Some ''high'')\<rparr>)"
  proof -
    have "f_severity (no_filters\<lparr>f_severity := Some (Some ''high'')\<rparr>) = Some (Some ''high'')
          \<and> lower (severity (sample_event\<lparr>severity := ''Medium''\<rparr>)) = ''medium''"
      using l by simp
    with match_filters_spec[where flt = "no_filters\<lparr>f_severity := Some (Some ''high'')\<rparr>"
        and ev = "sample_event\<lparr>severity := ''Medium''\<rparr>"]
    show ?thesis by blast
  qed
  have 3: "match_filters sample_event (no_filters\<lparr>f_labels := Some (Some [''Credit Card''])\<rparr>)"
    using match_filters_spec[where ev = sample_event and flt = no_filters]
    by (simp add: sample_event_fields det_card_def)
  have 4: "\<not> match_filters (sample_event\<lparr>detections := [det_password]\<rparr>)
         (no_filters\<lparr>f_labels := Some (Some [''Credit Card''])\<rparr>)"
    using match_filters_spec[where ev = "sample_event\<lparr>detections := [det_password]\<rparr>" and flt = no_filters]
    by (simp add: det_password_def)
  from 1 2 3 4 show ?thesis by blast
qed

text \<open>
  Claim C10. A filter key that is present but empty excludes: with \<open>platform\<close> (or
  \<open>severity\<close>) mapped to \<open>None\<close> or to the empty string, no event with a non-empty
  platform (or severity) matches, and with \<open>labels\<close> mapped to \<open>None\<close> or to the empty list
  no event matches at all. Only an absent key is ignored: then the result does not depend
  on the event's field.
\<close>

theorem match_filters_empty_value:
  "(platform ev \<noteq> [] \<and> (f_platform flt = Some None \<or> f_platform flt = Some (Some []))
      \<longrightarrow> \<not> match_filters ev flt)
   \<and> (severity ev \<noteq> [] \<and> (f_severity flt = Some None \<or> f_severity flt = Some (Some []))
      \<longrightarrow> \<not> match_filters ev flt)
   \<and> (f_labels flt = Some None \<or> f_labels flt = Some (Some []) \<longrightarrow> \<not> match_filters ev flt)
   \<and> (f_platform flt = None \<longrightarrow> match_filters (ev\<lparr>platform := p\<rparr>) flt = match_filters ev flt)
   \<and> (f_severity flt = None \<longrightarrow> match_filters (ev\<lparr>severity := s\<rparr>) flt = match_filters ev flt)
   \<and> (f_labels flt = None \<longrightarrow> match_filters (ev\<lparr>detections := ds\<rparr>) flt = match_filters ev flt)"
proof (intro conjI impI)
  assume "platform ev \<noteq> [] \<and> (f_platform flt = Some None \<or> f_platform flt = Some (Some []))"
  then show "\<not> match_filters ev flt"
    unfolding match_filters_iff by (auto simp: or_empty_def lower_def)
next
  assume "severity ev \<noteq> [] \<and> (f_severity flt = Some None \<or> f_severity flt = Some (Some []))"
  then show "\<not> match_filters ev flt"
    unfolding match_filters_iff by (auto simp: or_empty_def lower_def)
next
  assume "f_labels flt = Some None \<or> f_labels flt = Some (Some [])"
  then show "\<not> match_filters ev flt"
    unfolding match_filters_iff by (auto simp: or_empty_def)
next
  assume "f_platform flt = None"
  then show "match_filters (ev\<lparr>platform := p\<rparr>) flt = match_filters ev flt"
    unfolding match_filters_iff by simp
next
  assume "f_severity flt = None"
  then show "match_filters (ev\<lparr>severity := s\<rparr>) flt = match_filters ev flt"
    unfolding match_filters_iff by simp
next
  assume "f_labels flt = None"
  then show "match_filters (ev\<lparr>detections := ds\<rparr>) flt = match_filters ev flt"
    unfolding match_filters_iff by simp
qed

theorem match_filters_empty_value_witness:
  "platform sample_event \<noteq> []
   \<and> \<not> match_filters sample_event (no_filters\<lparr>f_platform := Some None\<rparr>)
   \<and> \<not> match_filters sample_event (no_filters\<lparr>f_severity := Some (Some [])\<rparr>)
   \<and> \<not> match_filters sample_event (no_filters\<lparr>f_labels := Some (Some [])\<rparr>)
   \<and> match_filters (sample_event\<lparr>platform := ''jira''\<rparr>) no_filters = match_filters sample_event no_filters"
  using match_filters_empty_value[where ev = sample_event and flt = "no_filters\<lparr>f_platform := Some None\<rparr>"]
    match_filters_empty_value[where ev = sample_event and flt = "no_filters\<lparr>f_severity := Some (Some [])\<rparr>"]
    match_filters_empty_value[where flt = "no_filters\<lparr>f_labels := Some (Some [])\<rparr>" and ev = sample_event]
    match_filters_empty_value[where flt = no_filters and ev = sample_event and p = "''jira''"]
  by (simp add: sample_event_fields no_filters_def)

section \<open>Properties of the event store and of the fan-out\<close>

lemma upsert_absent:
  "\<not> list_ex (\<lambda>d. fp d = fp ev) store \<Longrightarrow>
   update_one_upsert fp ev store = (store @ [ev], True)"
  by (simp add: update_one_upsert_def)

lemma upsert_present:
  "list_ex (\<lambda>d. fp d = fp ev) store \<Longrightarrow>
   update_one_upsert fp ev store = (store, False)"
  by (simp add: update_one_upsert_def)

lemma upsert_distinct:
  "distinct (map fp store) \<Longrightarrow> distinct (map fp (fst (update_one_upsert fp ev store)))"
  by (auto simp: update_one_upsert_def list_ex_iff)

lemma upsert_stored:
  "list_ex (\<lambda>d. fp d = fp ev) (fst (update_one_upsert fp ev store))"
  by (auto simp: update_one_upsert_def list_ex_iff)

text \<open>
  In the Slack, Jira, Trello and Confluence connectors the event counts as new when
  \<open>res.upserted_id\<close> is set. There, of two inserts with the same fingerprint the second
  is not new and leaves the collection as the first insert left it; the first is new
  exactly when the fingerprint was not stored, and then one record with that fingerprint
  is stored, the event of the first insert. Fingerprints that were unique stay unique.
\<close>

lemma upsert_twice:
  assumes "fingerprint ev' = fingerprint ev"
  shows "snd (update_one_upsert fingerprint ev' (fst (update_one_upsert fingerprint ev store))) = False
       \<and> fst (update_one_upsert fingerprint ev' (fst (update_one_upsert fingerprint ev store)))
           = fst (update_one_upsert fingerprint ev store)
       \<and> (snd (update_one_upsert fingerprint ev store)
            \<longleftrightarrow> (\<forall>d\<in>set store. fingerprint d \<noteq> fingerprint ev))
       \<and> ((\<forall>d\<in>set store. fingerprint d \<noteq> fingerprint ev) \<longrightarrow>
            snd (update_one_upsert fingerprint ev store)
            \<and> filter (\<lambda>d. fingerprint d = fingerprint ev)
                 (fst (update_one_upsert fingerprint ev'
                        (fst (update_one_upsert fingerprint ev store)))) = [ev])
       \<and> (distinct (map fingerprint store) \<longrightarrow>
            distinct (map fingerprint
              (fst (update_one_upsert fingerprint ev'
                     (fst (update_one_upsert fingerprint ev store))))))"
proof -
  have p: "list_ex (\<lambda>d. fingerprint d = fingerprint ev') (fst (update_one_upsert fingerprint ev store))"
    using assms upsert_stored[of fingerprint ev store] by simp
  then have 2: "update_one_upsert fingerprint ev' (fst (update_one_upsert fingerprint ev store))
                = (fst (update_one_upsert fingerprint ev store), False)"
    by (rule upsert_present)
  have 3: "snd (update_one_upsert fingerprint ev store)
           \<longleftrightarrow> (\<forall>d\<in>set store. fingerprint d \<noteq> fingerprint ev)"
    by (auto simp: update_one_upsert_def list_ex_iff)
  have 4: "filter (\<lambda>d. fingerprint d = fingerprint ev) (fst (update_one_upsert fingerprint ev store)) = [ev]"
    if "\<forall>d\<in>set store. fingerprint d \<noteq> fingerprint ev"
  proof -
    from that have "filter (\<lambda>d. fingerprint d = fingerprint ev) store = []"
      by (simp add: filter_empty_conv)
    with that show ?thesis by (simp add: update_one_upsert_def list_ex_iff)
  qed
  show ?thesis unfolding 2 using 3 4 upsert_distinct[where fp = fingerprint and store = store and ev = ev]
    by simp
qed

lemma upsert_twice_sample:
  "update_one_upsert fingerprint sample_event [] = ([sample_event], True)
   \<and> update_one_upsert fingerprint (sample_event\<lparr>found_at := sample_time\<lparr>year := 2030\<rparr>\<rparr>)
        [sample_event] = ([sample_event], False)"
  by (simp add: update_one_upsert_def)

lemma store_event_stamped:
  "store_event sha256 strip_html now_iso False ev store
   = (fst (update_one_upsert t_fingerprint
             (ev\<lparr> t_fingerprint := Some (teams_fingerprint sha256 strip_html ev),
                  t_created_at := Some now_iso \<rparr>) store), True)"
  by (simp add: store_event_def Let_def)

text \<open>
  Claim C2, against the code. In the Teams connector the second insert of the same event
  leaves the collection as it was, so one record is stored, but \<open>_store_event\<close> returns
  \<open>True\<close> again and \<open>_detect_and_store\<close> counts the duplicate as new: two insertions are
  reported as new where the claim, the comment in \<open>_store_event\<close> and the docstring of
  \<open>scan\<close> say one.
\<close>

theorem store_event_duplicate:
  "store_event sha256 strip_html now2 False ev
       (fst (store_event sha256 strip_html now1 False ev store))
     = (fst (store_event sha256 strip_html now1 False ev store), True)
   \<and> snd (store_event sha256 strip_html now1 False ev store) = True
   \<and> length (filter (\<lambda>d. t_fingerprint d = Some (teams_fingerprint sha256 strip_html ev))
              (fst (store_event sha256 strip_html now2 False ev
                     (fst (store_event sha256 strip_html now1 False ev [])))))
       = 1"
proof -
  let ?fp = "Some (teams_fingerprint sha256 strip_html ev)"
  let ?e1 = "ev\<lparr> t_fingerprint := ?fp, t_created_at := Some now1 \<rparr>"
  let ?e2 = "ev\<lparr> t_fingerprint := ?fp, t_created_at := Some now2 \<rparr>"
  have same: "t_fingerprint ?e2 = t_fingerprint ?e1" by simp
  have "list_ex (\<lambda>d. t_fingerprint d = t_fingerprint ?e1) (fst (update_one_upsert t_fingerprint ?e1 st))" for st
    by (rule upsert_stored)
  then have "list_ex (\<lambda>d. t_fingerprint d = t_fingerprint ?e2) (fst (update_one_upsert t_fingerprint ?e1 st))" for st
    by simp
  then have u: "update_one_upsert t_fingerprint ?e2 (fst (update_one_upsert t_fingerprint ?e1 st))
             = (fst (update_one_upsert t_fingerprint ?e1 st), False)" for st
    by (rule upsert_present)
  have 1: "store_event sha256 strip_html now2 False ev
       (fst (store_event sha256 strip_html now1 False ev store))
     = (fst (store_event sha256 strip_html now1 False ev store), True)"
    unfolding store_event_stamped by (simp add: u)
  have 2: "snd (store_event sha256 strip_html now1 False ev store) = True"
    unfolding store_event_stamped by simp
  have 3: "length (filter (\<lambda>d. t_fingerprint d = ?fp)
              (fst (store_event sha256 strip_html now2 False ev
                     (fst (store_event sha256 strip_html now1 False ev []))))) = 1"
    unfolding store_event_stamped by (simp add: u) (simp add: update_one_upsert_def)
  from 1 2 3 show ?thesis by blast
qed

lemma try_block_invoked:
  "invoked (try_block adapter msg ss d) =
     invoked d @ (case find (\<lambda>s. adapter s \<noteq> Returns) ss of
                    None \<Rightarrow> ss
                  | Some r \<Rightarrow> takeWhile (\<lambda>s. adapter s = Returns) ss @ [r])"
proof (induction ss arbitrary: d)
  case Nil
  then show ?case by simp
next
  case (Cons s ss)
  then show ?case by (cases "adapter s") (auto split: option.splits)
qed

lemma fan_out_invoked:
  "invoked (fan_out adapter) =
     (case find (\<lambda>s. adapter s \<noteq> Returns) ticket_sinks of
        None \<Rightarrow> ticket_sinks
      | Some r \<Rightarrow> takeWhile (\<lambda>s. adapter s = Returns) ticket_sinks @ [r]) @ [WebhookBroadcast]"
  unfolding fan_out_def Let_def try_block_invoked ticket_sinks_def
  by (cases "adapter WebhookBroadcast") simp_all

text \<open>
  Claim C3, as the code has it. The fan-out never raises. The Jira, GLPI and ServiceNow
  ticket adapters and the two Slack alert adapters are called in this order inside one
  \<open>try\<close> block: each of them is invoked exactly when all the adapters before it in the
  block have returned. The webhook broadcast has a \<open>try\<close> block of its own and is
  invoked whatever the other adapters did.
\<close>

theorem fan_out_groups:
  "WebhookBroadcast \<in> set (invoked (fan_out adapter))
   \<and> JiraTicket \<in> set (invoked (fan_out adapter))
   \<and> (GlpiTicket \<in> set (invoked (fan_out adapter)) \<longleftrightarrow> adapter JiraTicket = Returns)
   \<and> (ServiceNowTicket \<in> set (invoked (fan_out adapter)) \<longleftrightarrow>
        adapter JiraTicket = Returns \<and> adapter GlpiTicket = Returns)
   \<and> (SlackApiAlert \<in> set (invoked (fan_out adapter)) \<longleftrightarrow>
        adapter JiraTicket = Returns \<and> adapter GlpiTicket = Returns
        \<and> adapter ServiceNowTicket = Returns)
   \<and> (SlackWebhookAlert \<in> set (invoked (fan_out adapter)) \<longleftrightarrow>
        adapter JiraTicket = Returns \<and> adapter GlpiTicket = Returns
        \<and> adapter ServiceNowTicket = Returns \<and> adapter SlackApiAlert = Returns)"
  unfolding fan_out_invoked ticket_sinks_def
  by (auto split: option.splits if_splits)


theorem fan_out_groups_witness:
  "invoked (fan_out jira_down) = [JiraTicket, WebhookBroadcast]
   \<and> invoked (fan_out webhooks_down)
       = [JiraTicket, GlpiTicket, ServiceNowTicket, SlackApiAlert, SlackWebhookAlert, WebhookBroadcast]
   \<and> jira_down JiraTicket \<noteq> Returns
   \<and> GlpiTicket \<notin> set (invoked (fan_out jira_down))
   \<and> SlackWebhookAlert \<in> set (invoked (fan_out webhooks_down))"
proof -
  have 1: "invoked (fan_out jira_down) = [JiraTicket, WebhookBroadcast]"
    by (simp add: fan_out_def Let_def)
  have 2: "invoked (fan_out webhooks_down)
       = [JiraTicket, GlpiTicket, ServiceNowTicket, SlackApiAlert, SlackWebhookAlert, WebhookBroadcast]"
    by (simp add: fan_out_def Let_def)
  from fan_out_groups[of jira_down] have 3: "GlpiTicket \<notin> set (invoked (fan_out jira_down))"
    by simp
  from fan_out_groups[of webhooks_down] have 4: "SlackWebhookAlert \<in> set (invoked (fan_out webhooks_down))"
    by simp
  from 1 2 3 4 show ?thesis by simp
qed

text \<open>
  Claim C3 as stated fails: when the Jira adapter raises, the shared handler ends the
  block, and the GLPI, ServiceNow and the two Slack adapters are not invoked for the
  event; only the webhook broadcast still is.
\<close>

theorem fan_out_counterexample:
  "jira_down JiraTicket = Raises ''connection timed out''
   \<and> invoked (fan_out jira_down) = [JiraTicket, WebhookBroadcast]
   \<and> GlpiTicket \<notin> set (invoked (fan_out jira_down))
   \<and> ServiceNowTicket \<notin> set (invoked (fan_out jira_down))
   \<and> SlackApiAlert \<notin> set (invoked (fan_out jira_down))
   \<and> SlackWebhookAlert \<notin> set (invoked (fan_out jira_down))"
  by (simp add: fan_out_def Let_def)

section \<open>Properties of the pattern loaders\<close>

lemma PATTERNS_fails:
  "(k, v) \<in> set raw \<Longrightarrow> re_compile v = Inl e \<Longrightarrow> \<exists>e'. PATTERNS re_compile raw = Inl (ReError e')"
proof (induction raw)
  case Nil
  then show ?case by simp
next
  case (Cons kv raw)
  obtain k' v' where kv: "kv = (k', v')" by (cases kv)
  show ?case
  proof (cases "re_compile v'")
    case (Inl a)
    with kv show ?thesis by simp
  next
    case (Inr rx)
    with Cons kv have "(k, v) \<in> set raw" by auto
    with Cons obtain e' where "PATTERNS re_compile raw = Inl (ReError e')" by blast
    with Inr kv show ?thesis by simp
  qed
qed

lemma load_patterns_teams_fst:
  "fst (load_patterns_teams re_compile raw) =
     concat (map (\<lambda>(k, v). case re_compile v of Inl e \<Rightarrow> [] | Inr c \<Rightarrow> [(k, c)]) raw)"
  by (induction raw) (auto split: prod.splits sum.splits)

text \<open>
  Claim C9, against the code. In the Slack, Jira, Trello and Confluence connectors an
  entry whose expression does not compile makes the construction of \<open>PATTERNS\<close> raise
  \<open>re.error\<close>, so no pattern is compiled there; the loader of the Teams connector skips
  the entry and keeps every pattern that compiles, which is what the claim says.
\<close>

theorem pattern_loaders:
  "((k, v) \<in> set raw \<and> re_compile v = Inl e \<longrightarrow> (\<exists>e'. PATTERNS re_compile raw = Inl (ReError e')))
   \<and> fst (load_patterns_teams re_compile raw) =
       concat (map (\<lambda>(k, v). case re_compile v of Inl e \<Rightarrow> [] | Inr c \<Rightarrow> [(k, c)]) raw)"
  using PATTERNS_fails[of k v raw re_compile e] load_patterns_teams_fst[of re_compile raw] by blast

theorem pattern_loaders_witness:
  "(''Bad'', ''('') \<in> set sample_patterns
   \<and> sample_compile ''('' = Inl ''missing ), unterminated subpattern''
   \<and> PATTERNS sample_compile sample_patterns = Inl (ReError ''missing ), unterminated subpattern'')
   \<and> fst (load_patterns_teams sample_compile sample_patterns)
       = [(''Password'', ''password=.+''), (''Card'', ''[0-9]+'')]"
  using pattern_loaders[of "''Bad''" "''(''" sample_patterns sample_compile "''missing ), unterminated subpattern''"]
  by (simp add: sample_patterns_def)


section \<open>Properties of the export walker\<close>

lemma get_set_cursor: "get_cursor (set_cursor st mode t) mode = Some t"
  by (simp add: get_cursor_def set_cursor_def)

lemma set_cursor_other: "k \<noteq> ''cursor:'' @ mode \<Longrightarrow> set_cursor st mode t k = st k"
  by (simp add: set_cursor_def)

lemma export_loop_advances:
  assumes "fetch_page http_get cur page_limit = Inr data" "events data \<noteq> []"
    "send (events data) = Inr res" "next_cursor data = Some t" "t \<noteq> []"
  shows "export_loop (Suc fuel) http_get send mode page_limit st cur total_ok total_fail n
          = export_loop fuel http_get send mode page_limit (set_cursor st mode t) (Some t)
              (case ok res of None \<Rightarrow> total_ok | Some a \<Rightarrow> total_ok + a)
              (case ok res of None \<Rightarrow> total_fail
               | Some a \<Rightarrow> (case failed res of None \<Rightarrow> total_fail | Some b \<Rightarrow> total_fail + b))
              (Suc n)"
  using assms by (simp add: Let_def truthy_def or_empty_def)

lemma export_loop_send_raises:
  assumes "fetch_page http_get cur page_limit = Inr data" "events data \<noteq> []"
    "send (events data) = Inl e"
  shows "export_loop (Suc fuel) http_get send mode page_limit st cur total_ok total_fail n
          = Some (st, Inl e)"
  using assms by (simp add: Let_def)

lemma export_loop_abort:
  assumes "export_loop fuel http_get send mode page_limit st cur total_ok total_fail n = Some (st', Inl e)"
    and "cur = get_cursor st mode"
  shows "(fetch_page http_get (get_cursor st' mode) page_limit = Inl e
          \<or> (\<exists>data. fetch_page http_get (get_cursor st' mode) page_limit = Inr data
                \<and> events data \<noteq> [] \<and> send (events data) = Inl e))
         \<and> (\<forall>k. k \<noteq> ''cursor:'' @ mode \<longrightarrow> st' k = st k)"
  using assms
proof (induction fuel arbitrary: st cur total_ok total_fail n)
  case 0
  then show ?case by simp
next
  case (Suc fuel)
  show ?case
  proof (cases "fetch_page http_get cur page_limit")
    case (Inl a)
    with Suc.prems show ?thesis by simp
  next
    case (Inr data)
    note fetch = Inr
    show ?thesis
    proof (cases "events data = []")
      case True
      with fetch Suc.prems show ?thesis by (simp add: Let_def)
    next
      case False
      show ?thesis
      proof (cases "send (events data)")
        case (Inl a)
        with fetch False Suc.prems show ?thesis by (auto simp: Let_def)
      next
        case (Inr res)
        show ?thesis
        proof (cases "truthy (next_cursor data)")
          case True
          then obtain t where t: "next_cursor data = Some t" "t \<noteq> []"
            by (auto simp: truthy_def split: option.splits)
          from fetch False Inr t
          obtain a b where
            "export_loop (Suc fuel) http_get send mode page_limit st cur total_ok total_fail n
              = export_loop fuel http_get send mode page_limit (set_cursor st mode t) (Some t) a b (Suc n)"
            using export_loop_advances[where http_get = http_get and send = send] by blast
          with Suc.prems(1) have
            "export_loop fuel http_get send mode page_limit (set_cursor st mode t) (Some t) a b (Suc n)
              = Some (st', Inl e)" by simp
          from Suc.IH[OF this] get_set_cursor[of st mode t]
          have "(fetch_page http_get (get_cursor st' mode) page_limit = Inl e
                \<or> (\<exists>data. fetch_page http_get (get_cursor st' mode) page_limit = Inr data
                      \<and> events data \<noteq> [] \<and> send (events data) = Inl e))
               \<and> (\<forall>k. k \<noteq> ''cursor:'' @ mode \<longrightarrow> st' k = set_cursor st mode t k)"
            by simp
          then show ?thesis by (simp add: set_cursor_other)
        next
          case nt: False
          with fetch False Inr Suc.prems show ?thesis by (simp add: Let_def)
        qed
      qed
    qed
  qed
qed

text \<open>
  Claim C4, as the code has it. When the sink client's \<open>send\<close> returns for a non-empty
  page that carries a continuation token, the token is persisted and the walk goes on
  from it, whatever counts of accepted and failed records the client reports. When
  \<open>send\<close> raises, the run ends at once with the stored cursors untouched. So after a run
  that ended in an exception, the cursor of the destination is the one the failing page
  was fetched with (the fetch at that cursor raised, or the send of its page did), the
  next run starts from that page again, and the cursors of other destinations are as
  they were.
\<close>

theorem run_export_cursor:
  "(fetch_page http_get cur page_limit = Inr data \<and> events data \<noteq> []
      \<and> send (events data) = Inr res \<and> next_cursor data = Some t \<and> t \<noteq> [] \<longrightarrow>
      export_loop (Suc fuel) http_get send mode page_limit st cur total_ok total_fail n
          = export_loop fuel http_get send mode page_limit (set_cursor st mode t) (Some t)
              (case ok res of None \<Rightarrow> total_ok | Some a \<Rightarrow> total_ok + a)
              (case ok res of None \<Rightarrow> total_fail
               | Some a \<Rightarrow> (case failed res of None \<Rightarrow> total_fail | Some b \<Rightarrow> total_fail + b))
              (Suc n))
   \<and> (fetch_page http_get cur page_limit = Inr data \<and> events data \<noteq> []
      \<and> send (events data) = Inl e \<longrightarrow>
      export_loop (Suc fuel) http_get send mode page_limit st cur total_ok total_fail n
          = Some (st, Inl e))
   \<and> (run_export fuel http_get send mode page_limit st = Some (st', Inl e) \<longrightarrow>
        (fetch_page http_get (get_cursor st' mode) page_limit = Inl e
          \<or> (\<exists>data. fetch_page http_get (get_cursor st' mode) page_limit = Inr data
                \<and> events data \<noteq> [] \<and> send (events data) = Inl e))
        \<and> (\<forall>k. k \<noteq> ''cursor:'' @ mode \<longrightarrow> st' k = st k))"
proof (intro conjI impI)
  assume "fetch_page http_get cur page_limit = Inr data \<and> events data \<noteq> []
      \<and> send (events data) = Inr res \<and> next_cursor data = Some t \<and> t \<noteq> []"
  then show "export_loop (Suc fuel) http_get send mode page_limit st cur total_ok total_fail n
          = export_loop fuel http_get send mode page_limit (set_cursor st mode t) (Some t)
              (case ok res of None \<Rightarrow> total_ok | Some a \<Rightarrow> total_ok + a)
              (case ok res of None \<Rightarrow> total_fail
               | Some a \<Rightarrow> (case failed res of None \<Rightarrow> total_fail | Some b \<Rightarrow> total_fail + b))
              (Suc n)"
    using export_loop_advances[where http_get = http_get and send = send] by blast
next
  assume "fetch_page http_get cur page_limit = Inr data \<and> events data \<noteq> []
      \<and> send (events data) = Inl e"
  then show "export_loop (Suc fuel) http_get send mode page_limit st cur total_ok total_fail n
          = Some (st, Inl e)"
    using export_loop_send_raises[where http_get = http_get and send = send] by blast
next
  assume a: "run_export fuel http_get send mode page_limit st = Some (st', Inl e)"
  from export_loop_abort[OF a[unfolded run_export_def] refl]
  show "fetch_page http_get (get_cursor st' mode) page_limit = Inl e
          \<or> (\<exists>data. fetch_page http_get (get_cursor st' mode) page_limit = Inr data
                \<and> events data \<noteq> [] \<and> send (events data) = Inl e)"
    and "\<forall>k. k \<noteq> ''cursor:'' @ mode \<longrightarrow> st' k = st k"
    by blast+
qed


theorem run_export_cursor_witness:
  "run_export 10 three_pages sink_raises_page2 ''splunk'' 2 Map.empty
     = Some ([''cursor:splunk'' \<mapsto> ''t4''], Inl (SinkError ''connection reset''))
   \<and> (\<exists>data. fetch_page three_pages (Some ''t4'') 2 = Inr data \<and> events data \<noteq> []
         \<and> sink_raises_page2 (events data) = Inl (SinkError ''connection reset''))"
proof -
  have r: "run_export 10 three_pages sink_raises_page2 ''splunk'' 2 Map.empty
     = Some ([''cursor:splunk'' \<mapsto> ''t4''], Inl (SinkError ''connection reset''))"
    by (simp add: run_export_def get_cursor_def set_cursor_def fetch_page_def truthy_def
          or_empty_def ok_response_def Let_def eval_nat_numeral)
  have f: "\<And>e. fetch_page three_pages (Some ''t4'') 2 \<noteq> Inl e"
    by (simp add: fetch_page_def truthy_def ok_response_def)
  from run_export_cursor[where http_get = three_pages and send = sink_raises_page2
      and fuel = 10 and mode = "''splunk''" and page_limit = 2 and st = Map.empty
      and st' = "[''cursor:splunk'' \<mapsto> ''t4'']" and e = "SinkError ''connection reset''"] r
  have "fetch_page three_pages (get_cursor [''cursor:splunk'' \<mapsto> ''t4''] ''splunk'') 2
          = Inl (SinkError ''connection reset'')
        \<or> (\<exists>data. fetch_page three_pages (get_cursor [''cursor:splunk'' \<mapsto> ''t4''] ''splunk'') 2 = Inr data
              \<and> events data \<noteq> [] \<and> sink_raises_page2 (events data) = Inl (SinkError ''connection reset''))"
    by blast
  moreover have "get_cursor [''cursor:splunk'' \<mapsto> ''t4''] ''splunk'' = Some ''t4''"
    by (simp add: get_cursor_def)
  ultimately have "\<exists>data. fetch_page three_pages (Some ''t4'') 2 = Inr data \<and> events data \<noteq> []
         \<and> sink_raises_page2 (events data) = Inl (SinkError ''connection reset'')"
    using f by simp
  with r show ?thesis by blast
qed

text \<open>
  Claim C4 as stated fails. The sink reports the whole batch of the second page as failed
  (none accepted), and the run still persists that page's token and the next one: it ends
  with the cursor behind the third page, and no later run sends the second page again.
\<close>

theorem run_export_counterexample:
  "fetch_page three_pages (Some ''t4'') 2 = Inr \<lparr> events = [''e3'', ''e2''], next_cursor = Some ''t2'' \<rparr>
   \<and> sink_rejects_page2 [''e3'', ''e2''] = Inr \<lparr> ok = Some 0, failed = Some 2 \<rparr>
   \<and> run_export 10 three_pages sink_rejects_page2 ''splunk'' 2 Map.empty
       = Some ([''cursor:splunk'' \<mapsto> ''t1''],
               Inr \<lparr> s_mode = ''splunk'', sent = 3, s_failed = 2, pages = 3, cursor = Some ''t1'' \<rparr>)"
  by (simp add: run_export_def get_cursor_def set_cursor_def fetch_page_def truthy_def or_empty_def
        ok_response_def Let_def eval_nat_numeral)

section \<open>Properties of the event listing\<close>




































lemma find_events_no_cursor:
  "find_events fromisoformat regex_i store
     \<lparr>q_platform = p, q_severity = s, q_label = l, q_since = since, q_until = until,
        q_limit = limit, q_cursor = None\<rparr>
   = take (nat limit) (sort_newest_first (filter (doc_matches regex_i (build_mongo_query fromisoformat
        \<lparr>q_platform = p, q_severity = s, q_label = l, q_since = since, q_until = until,
           q_limit = limit, q_cursor = None\<rparr>)) store))"
  by (simp add: find_events_def)


















end
